theory Spec2Isabelle
  imports Main "HOL-Library.Word"
begin

section \<open>JavaScript strings\<close>

text \<open>
  A JavaScript string is a sequence of UTF-16 code units; \<open>length\<close>, indexing and the
  regular-expression engine (without the \<open>u\<close> flag, as in \<open>scanner.js\<close>) all work on
  code units. \<open>js\<close> turns an ASCII literal into such a string.
\<close>

type_synonym code_unit = "16 word"
type_synonym js_string = "code_unit list"

definition js :: "string \<Rightarrow> js_string" where
  "js s = map (\<lambda>c. of_nat (of_char c)) s"

section \<open>The regular expressions of \<open>scanner.js\<close>\<close>

text \<open>
  The character classes of ECMAScript: \<open>\d\<close> is \<open>[0-9]\<close>, \<open>\D\<close> its complement, and
  \<open>\s\<close> is WhiteSpace together with LineTerminator.
\<close>

definition isDigit :: "code_unit \<Rightarrow> bool" where
  "isDigit c = (0x30 \<le> c \<and> c \<le> 0x39)"

definition isNonDigit :: "code_unit \<Rightarrow> bool" where
  "isNonDigit c = (\<not> isDigit c)"

definition isSpace :: "code_unit \<Rightarrow> bool" where
  "isSpace c = (c = 0x09 \<or> c = 0x0A \<or> c = 0x0B \<or> c = 0x0C \<or> c = 0x0D \<or> c = 0x20
     \<or> c = 0xA0 \<or> c = 0x1680 \<or> (0x2000 \<le> c \<and> c \<le> 0x200A) \<or> c = 0x2028
     \<or> c = 0x2029 \<or> c = 0x202F \<or> c = 0x205F \<or> c = 0x3000 \<or> c = 0xFEFF)"

text \<open>
  Canonicalize of the \<open>i\<close> flag (no \<open>u\<close> flag): a code unit is replaced by its upper
  case, except that a code unit of value 128 or more never becomes one below 128. Every
  literal of the patterns below is ASCII, so only the ASCII letters are folded here; a code
  unit of 128 or more keeps a value of 128 or more in ECMAScript as well and matches none
  of the literals.
\<close>

definition canonicalize :: "bool \<Rightarrow> code_unit \<Rightarrow> code_unit" where
  "canonicalize ignoreCase c =
     (if ignoreCase \<and> 0x61 \<le> c \<and> c \<le> 0x7A then c - 0x20 else c)"

datatype regex =
    Eps
  | Chr code_unit
  | ClassD
  | ClassS
  | Seq regex regex
  | Opt regex
  | Rep nat regex
  | Group regex
  | Bol
  | Eol

text \<open>
  A matcher state is the index into the input, the rest of the input from that index, and
  what capture group 1 holds. \<open>rmatch\<close> returns the states in which a match of the
  pattern can end, in the order in which the backtracking matcher of ECMAScript tries
  them: a greedy \<open>?\<close> first with its operand, then without it (an iteration that
  consumes nothing is rejected); \<open>{n}\<close> repeats its operand exactly \<open>n\<close> times;
  \<open>^\<close> and \<open>$\<close> (no \<open>m\<close> flag) hold at the start and at the end of the input only.
\<close>

type_synonym mstate = "nat \<times> js_string \<times> js_string option"

fun rsize :: "regex \<Rightarrow> nat" where
  "rsize (Seq a b) = Suc (rsize a + rsize b)"
| "rsize (Opt a) = Suc (rsize a)"
| "rsize (Rep n a) = Suc (rsize a + n * Suc (rsize a))"
| "rsize (Group a) = Suc (rsize a)"
| "rsize _ = 0"

function rmatch :: "bool \<Rightarrow> regex \<Rightarrow> mstate \<Rightarrow> mstate list" where
  "rmatch ic Eps st = [st]"
| "rmatch ic (Chr c) (i, rest, cap) =
     (case rest of
        [] \<Rightarrow> []
      | x # xs \<Rightarrow> if canonicalize ic x = canonicalize ic c then [(Suc i, xs, cap)] else [])"
| "rmatch ic ClassD (i, rest, cap) =
     (case rest of [] \<Rightarrow> [] | x # xs \<Rightarrow> if isDigit x then [(Suc i, xs, cap)] else [])"
| "rmatch ic ClassS (i, rest, cap) =
     (case rest of [] \<Rightarrow> [] | x # xs \<Rightarrow> if isSpace x then [(Suc i, xs, cap)] else [])"
| "rmatch ic (Seq a b) st = concat (map (rmatch ic b) (rmatch ic a st))"
| "rmatch ic (Opt a) st = filter (\<lambda>st'. fst st' \<noteq> fst st) (rmatch ic a st) @ [st]"
| "rmatch ic (Rep 0 a) st = [st]"
| "rmatch ic (Rep (Suc n) a) st = concat (map (rmatch ic (Rep n a)) (rmatch ic a st))"
| "rmatch ic (Group a) (i, rest, cap) =
     map (\<lambda>(j, rest', _). (j, rest', Some (take (j - i) rest))) (rmatch ic a (i, rest, cap))"
| "rmatch ic Bol (i, rest, cap) = (if i = 0 then [(i, rest, cap)] else [])"
| "rmatch ic Eol (i, rest, cap) = (if rest = [] then [(i, rest, cap)] else [])"
  by pat_completeness auto
termination
  by (relation "measure (\<lambda>(ic, r, st). rsize r)") auto

text \<open>
  \<open>String.prototype.match\<close> with a pattern without the \<open>g\<close> flag: the pattern is tried
  at index 0, 1, ... up to the length of the input, and the first index with a match gives
  the result array, of which \<open>match[0]\<close> (the matched text) and \<open>match[1]\<close> (group 1,
  \<open>None\<close> for \<open>undefined\<close>) are kept; no match at any index is \<open>null\<close>.
\<close>

fun search :: "bool \<Rightarrow> regex \<Rightarrow> nat \<Rightarrow> js_string \<Rightarrow> (js_string \<times> js_string option) option" where
  "search ic r i rest =
     (case rmatch ic r (i, rest, None) of
        (j, _, cap) # _ \<Rightarrow> Some (take (j - i) rest, cap)
      | [] \<Rightarrow> (case rest of [] \<Rightarrow> None | _ # xs \<Rightarrow> search ic r (Suc i) xs))"

definition js_match :: "bool \<times> regex \<Rightarrow> js_string \<Rightarrow> (js_string \<times> js_string option) option" where
  "js_match p s = search (fst p) (snd p) 0 s"

text \<open>A literal piece of a pattern, character by character.\<close>

fun lit :: "js_string \<Rightarrow> regex" where
  "lit [] = Eps"
| "lit (c # cs) = Seq (Chr c) (lit cs)"

text \<open>
  The four patterns of the constructor, each with its \<open>i\<close> flag:
  \<^verbatim>\<open>/AADHAAR:(\d{12})/i\<close>, \<^verbatim>\<open>/UID:(\d{12})/i\<close>, \<^verbatim>\<open>/(\d{4}\s?\d{4}\s?\d{4})/\<close> and
  \<^verbatim>\<open>/^(\d{12})$/\<close>.
\<close>

definition pat_aadhaar :: "bool \<times> regex" where
  "pat_aadhaar = (True, Seq (lit (js ''AADHAAR:'')) (Group (Rep 12 ClassD)))"

definition pat_uid :: "bool \<times> regex" where
  "pat_uid = (True, Seq (lit (js ''UID:'')) (Group (Rep 12 ClassD)))"

definition pat_grouped :: "bool \<times> regex" where
  "pat_grouped =
     (False, Group (Seq (Rep 4 ClassD) (Seq (Opt ClassS) (Seq (Rep 4 ClassD)
                (Seq (Opt ClassS) (Rep 4 ClassD))))))"

definition pat_plain :: "bool \<times> regex" where
  "pat_plain = (False, Seq Bol (Seq (Group (Rep 12 ClassD)) Eol))"

definition aadhaarPatterns :: "(bool \<times> regex) list" where
  "aadhaarPatterns = [pat_aadhaar, pat_uid, pat_grouped, pat_plain]"

text \<open>
  \<^verbatim>\<open>aadhaar.replace(/\D/g, '')\<close> deletes every code unit that \<open>\D\<close> matches, and
  \<^verbatim>\<open>/^\d+$/.test(aadhaar)\<close> holds of a non-empty string of digits.
\<close>

definition removeNonDigits :: "js_string \<Rightarrow> js_string" where
  "removeNonDigits s = filter (\<lambda>c. \<not> isNonDigit c) s"

definition testAllDigits :: "js_string \<Rightarrow> bool" where
  "testAllDigits s = (s \<noteq> [] \<and> list_all isDigit s)"

text \<open>
  \<^verbatim>\<open>match[1] || match[0]\<close>: group 1 unless it is \<open>undefined\<close> or the empty string.
\<close>

definition captured :: "js_string \<times> js_string option \<Rightarrow> js_string" where
  "captured m = (case snd m of None \<Rightarrow> fst m | Some c \<Rightarrow> if c = [] then fst m else c)"

text \<open>
  The loop of \<open>extractAadhaarNumber\<close> over the patterns; \<open>None\<close> is the \<open>null\<close>
  returned when no pattern gives a validated number.
\<close>

fun extractLoop :: "(bool \<times> regex) list \<Rightarrow> js_string \<Rightarrow> js_string option" where
  "extractLoop [] qrText = None"
| "extractLoop (pattern # patterns) qrText =
     (case js_match pattern qrText of
        None \<Rightarrow> extractLoop patterns qrText
      | Some m \<Rightarrow>
          (let aadhaar = removeNonDigits (captured m) in
           if length aadhaar = 12 \<and> testAllDigits aadhaar then Some aadhaar
           else extractLoop patterns qrText))"

definition extractAadhaarNumber :: "js_string \<Rightarrow> js_string option" where
  "extractAadhaarNumber qrText = extractLoop aadhaarPatterns qrText"


section \<open>The scanner object and the page\<close>

text \<open>
  The fields of a \<open>QRScanner\<close> object. \<open>html5QrCode\<close> is \<open>null\<close> or a reference to an
  instance of the camera library, \<open>scanTimer\<close> is \<open>null\<close> or the id that
  \<open>setInterval\<close> returned.
\<close>

type_synonym addr = nat
type_synonym handle = nat
type_synonym timer_id = nat

record scanner =
  html5QrCode :: "handle option"
  cameraStream :: "unit option"
  scanTimer :: "timer_id option"
  scanning :: bool
  scanStartTime :: "nat option"
  cameraId :: "js_string option"

text \<open>The constructor of \<open>QRScanner\<close>.\<close>

definition newQRScanner :: scanner where
  "newQRScanner = \<lparr>html5QrCode = None, cameraStream = None, scanTimer = None,
     scanning = False, scanStartTime = None, cameraId = None\<rparr>"

text \<open>
  A call of the camera library (\<open>html5QrCode.start\<close>, \<open>html5QrCode.stop\<close>) made by a
  method of the scanner object at the given address, and how the promise of such a call
  settles: resolved, or rejected with an error of the given \<open>message\<close>.
\<close>

datatype lib_call = StartCall addr handle js_string | StopCall addr handle

datatype outcome = Resolved | Rejected js_string

text \<open>
  The callback given to \<open>setTimeout\<close> in \<open>onScanSuccess\<close>, bound to its scanner object.
\<close>

datatype task = StatusScanning addr

datatype log_entry = ConsoleLog js_string js_string | ConsoleError js_string js_string

text \<open>
  Everything the code reads and writes: the heap of scanner objects (an object stays
  reachable from the callbacks given to the library after the global \<open>qrScanner\<close> is
  cleared), the globals \<open>qrScanner\<close>, \<open>window.scannedAadhaar\<close> and
  \<open>window.scannedQRData\<close>, the properties of the page's elements that are written (the
  elements themselves are taken to exist), the interval timers that are active, the
  timeouts that are pending with their delay, the console, and of the camera library the
  calls made so far and the instances that hold the camera. The last field is given by
  the JavaScript engine and never written: the \<open>message\<close> of the \<open>TypeError\<close> that a
  method call on \<open>null\<close> raises, whose wording differs from engine to engine.
\<close>

record world =
  heap :: "addr \<Rightarrow> scanner"
  qrScanner :: "addr option"
  scannedAadhaar :: "js_string option"
  scannedQRData :: "js_string option"
  qrModal_display :: js_string
  scanResult_display :: js_string
  scannedData_text :: js_string
  scannerError_display :: js_string
  errorTitle_text :: js_string
  errorMessage_text :: js_string
  scannerStatus_html :: js_string
  intervals :: "timer_id list"
  nextTimer :: timer_id
  timeouts :: "(nat \<times> task) list"
  console :: "log_entry list"
  calls :: "lib_call list"
  capturing :: "handle list"
  nullErrorMessage :: js_string

definition update_this :: "addr \<Rightarrow> (scanner \<Rightarrow> scanner) \<Rightarrow> world \<Rightarrow> world" where
  "update_this this f w = w\<lparr>heap := (heap w)(this := f (heap w this))\<rparr>"

section \<open>The methods of \<open>QRScanner\<close>\<close>

text \<open>\<open>updateStatus(message, type = 'info')\<close>: the icon and the colour of the status line.\<close>

definition statusIcon :: "js_string \<Rightarrow> js_string" where
  "statusIcon type =
     (if type = js ''success'' then js ''fa-check-circle''
      else if type = js ''error'' then js ''fa-exclamation-circle''
      else if type = js ''warning'' then js ''fa-exclamation-triangle''
      else if type = js ''loading'' then js ''fa-spinner fa-spin''
      else if type = js ''scanning'' then js ''fa-search''
      else js ''fa-camera'')"

definition statusColor :: "js_string \<Rightarrow> js_string" where
  "statusColor type =
     (if type = js ''success'' then js ''#10b981''
      else if type = js ''error'' then js ''#ef4444''
      else if type = js ''warning'' then js ''#f59e0b''
      else if type = js ''loading'' then js ''#3b82f6''
      else if type = js ''scanning'' then js ''#3b82f6''
      else js ''white'')"

definition statusLine :: "js_string \<Rightarrow> js_string \<Rightarrow> js_string" where
  \<open>statusLine message type =
     js ''<i class="fas '' @ statusIcon type @ js ''" style="color: '' @ statusColor type
       @ js ''"></i> '' @ message\<close>

definition updateStatus :: "js_string \<Rightarrow> js_string \<Rightarrow> world \<Rightarrow> world" where
  "updateStatus message type w = w\<lparr>scannerStatus_html := statusLine message type\<rparr>"

definition showError :: "js_string \<Rightarrow> js_string \<Rightarrow> world \<Rightarrow> world" where
  "showError title message w =
     updateStatus title (js ''error'')
       (w\<lparr>errorTitle_text := title, errorMessage_text := message,
          scannerError_display := js ''block''\<rparr>)"

definition showScanResult :: "js_string \<Rightarrow> js_string \<Rightarrow> world \<Rightarrow> world" where
  "showScanResult aadhaarNumber rawData w =
     updateStatus (js ''QR Code found!'') (js ''success'')
       (w\<lparr>scanResult_display := js ''block'',
          scannedData_text := js ''Aadhaar: '' @ aadhaarNumber,
          scannedAadhaar := Some aadhaarNumber,
          scannedQRData := Some rawData\<rparr>)"

text \<open>
  \<open>startScanTimer\<close> stores \<open>Date.now()\<close> (the argument \<open>now\<close>) and the id of a new
  interval timer; it does not clear a timer that is already stored. \<open>stopScanTimer\<close>
  clears the stored timer when \<open>this.scanTimer\<close> is truthy.
\<close>

definition startScanTimer :: "addr \<Rightarrow> nat \<Rightarrow> world \<Rightarrow> world" where
  "startScanTimer this now w =
     (update_this this (\<lambda>s. s\<lparr>scanStartTime := Some now, scanTimer := Some (nextTimer w)\<rparr>) w)
       \<lparr>intervals := nextTimer w # intervals w, nextTimer := Suc (nextTimer w)\<rparr>"

definition stopScanTimer :: "addr \<Rightarrow> world \<Rightarrow> world" where
  "stopScanTimer this w =
     (case scanTimer (heap w this) of
        None \<Rightarrow> w
      | Some t \<Rightarrow>
          if t = 0 then w
          else (update_this this (\<lambda>s. s\<lparr>scanTimer := None\<rparr>) w)
                 \<lparr>intervals := removeAll t (intervals w)\<rparr>)"

text \<open>
  An \<open>async\<close> method runs up to its first \<open>await\<close> when it is called; what follows the
  \<open>await\<close> runs later, when the awaited promise has settled, and other event handlers
  can run in between. Each such method is therefore given in two parts: \<open>_begin\<close> runs
  up to the \<open>await\<close> and returns the library call it waits for (if it got that far), and
  \<open>_resume\<close> is the rest of the body, run with the outcome of that call. The camera
  library is not part of the repository; of it only this is recorded: a \<open>start\<close> that
  resolves leaves its instance holding the camera, and a \<open>stop\<close> that resolves has
  released it.
\<close>

definition truthy :: "js_string option \<Rightarrow> bool" where
  "truthy v = (case v of None \<Rightarrow> False | Some s \<Rightarrow> s \<noteq> [])"

definition stopCamera_begin :: "addr \<Rightarrow> world \<Rightarrow> world \<times> lib_call option" where
  "stopCamera_begin this w =
     (case html5QrCode (heap w this) of
        None \<Rightarrow> (w, None)
      | Some h \<Rightarrow>
          if scanning (heap w this)
          then (w\<lparr>calls := calls w @ [StopCall this h]\<rparr>, Some (StopCall this h))
          else (w, None))"

definition stopCamera_resume :: "addr \<Rightarrow> handle \<Rightarrow> outcome \<Rightarrow> world \<Rightarrow> world" where
  "stopCamera_resume this h out w =
     (case out of
        Resolved \<Rightarrow>
          updateStatus (js ''Camera stopped'') (js ''info'')
            (stopScanTimer this
              (update_this this (\<lambda>s. s\<lparr>scanning := False\<rparr>)
                (w\<lparr>capturing := removeAll h (capturing w)\<rparr>)))
      | Rejected e \<Rightarrow>
          w\<lparr>console := console w @ [ConsoleError (js ''Failed to stop camera:'') e]\<rparr>)"

text \<open>
  When \<open>this.html5QrCode\<close> is \<open>null\<close>, \<open>this.html5QrCode.start\<close> raises a
  \<open>TypeError\<close> inside the \<open>try\<close> block, and the \<open>catch\<close> branch shows the message
  the engine gave it.
\<close>

definition startCamera_begin :: "addr \<Rightarrow> js_string option \<Rightarrow> world \<Rightarrow> world \<times> lib_call option" where
  "startCamera_begin this arg w =
     (let cameraId = (case arg of None \<Rightarrow> cameraId (heap w this) | Some c \<Rightarrow> Some c) in
      if \<not> truthy cameraId then (w, None)
      else
        (let w1 = updateStatus (js ''Starting camera...'') (js ''loading'') w in
         case html5QrCode (heap w1 this) of
           None \<Rightarrow> (showError (js ''Camera Start Failed'') (nullErrorMessage w1) w1, None)
         | Some h \<Rightarrow>
             (w1\<lparr>calls := calls w1 @ [StartCall this h (the cameraId)]\<rparr>,
              Some (StartCall this h (the cameraId)))))"

definition startCamera_resume :: "addr \<Rightarrow> handle \<Rightarrow> outcome \<Rightarrow> nat \<Rightarrow> world \<Rightarrow> world" where
  "startCamera_resume this h out now w =
     (case out of
        Resolved \<Rightarrow>
          updateStatus (js ''Scanning...'') (js ''scanning'')
            (startScanTimer this now
              (update_this this (\<lambda>s. s\<lparr>scanning := True\<rparr>)
                (w\<lparr>capturing := List.insert h (capturing w)\<rparr>)))
      | Rejected e \<Rightarrow> showError (js ''Camera Start Failed'') e w)"

text \<open>The rest of the method that waits for a library call.\<close>

definition resume :: "lib_call \<Rightarrow> outcome \<Rightarrow> nat \<Rightarrow> world \<Rightarrow> world" where
  "resume c out now w =
     (case c of
        StartCall this h cam \<Rightarrow> startCamera_resume this h out now w
      | StopCall this h \<Rightarrow> stopCamera_resume this h out w)"

text \<open>
  \<open>await this.stopCamera()\<close> and \<open>await this.startCamera(id)\<close> as \<open>switchCamera\<close> runs
  them: the method from its call to its end, with the outcome of its library call and no
  other handler in between.
\<close>

definition stopCamera :: "addr \<Rightarrow> outcome \<Rightarrow> nat \<Rightarrow> world \<Rightarrow> world" where
  "stopCamera this out now w =
     (case stopCamera_begin this w of
        (w1, None) \<Rightarrow> w1
      | (w1, Some c) \<Rightarrow> resume c out now w1)"

definition startCamera :: "addr \<Rightarrow> js_string option \<Rightarrow> outcome \<Rightarrow> nat \<Rightarrow> world \<Rightarrow> world" where
  "startCamera this arg out now w =
     (case startCamera_begin this arg w of
        (w1, None) \<Rightarrow> w1
      | (w1, Some c) \<Rightarrow> resume c out now w1)"

text \<open>
  \<open>switchCamera\<close>: both methods it awaits catch their own errors, so its \<open>catch\<close>
  branch is never entered.
\<close>

definition switchCamera :: "addr \<Rightarrow> js_string \<Rightarrow> outcome \<Rightarrow> outcome \<Rightarrow> nat \<Rightarrow> world \<Rightarrow> world" where
  "switchCamera this newCameraId stopOut startOut now w =
     (if newCameraId = [] \<or> \<not> scanning (heap w this) then w
      else
        (let w1 = stopCamera this stopOut now w;
             w2 = update_this this (\<lambda>s. s\<lparr>cameraId := Some newCameraId\<rparr>) w1
         in startCamera this (Some newCameraId) startOut now w2))"

text \<open>
  \<open>onScanSuccess\<close> calls \<open>stopCamera\<close> without awaiting it: only the part up to the
  \<open>await\<close> runs before \<open>stopScanTimer\<close> and \<open>showScanResult\<close>.
\<close>

definition invalidQRCode :: "addr \<Rightarrow> world \<Rightarrow> world" where
  "invalidQRCode this w =
     (let w1 = showError (js ''Invalid QR Code'')
                 (js ''This QR code does not contain a valid Aadhaar number.'') w
      in w1\<lparr>timeouts := timeouts w1 @ [(2000, StatusScanning this)]\<rparr>)"

definition onScanSuccess :: "addr \<Rightarrow> js_string \<Rightarrow> world \<Rightarrow> world" where
  "onScanSuccess this decodedText w =
     (let w0 = w\<lparr>console := console w @ [ConsoleLog (js ''QR Code scanned:'') decodedText]\<rparr>;
          aadhaarNumber = extractAadhaarNumber decodedText
      in if truthy aadhaarNumber
         then showScanResult (the aadhaarNumber) decodedText
                (stopScanTimer this (fst (stopCamera_begin this w0)))
         else invalidQRCode this w0)"

definition runTask :: "task \<Rightarrow> world \<Rightarrow> world" where
  "runTask t w = (case t of StatusScanning this \<Rightarrow> updateStatus (js ''Scanning...'') (js ''scanning'') w)"

text \<open>\<open>String.prototype.includes\<close>.\<close>

fun js_includes :: "js_string \<Rightarrow> js_string \<Rightarrow> bool" where
  "js_includes [] needle = (needle = [])"
| "js_includes (x # xs) needle = (take (length needle) (x # xs) = needle \<or> js_includes xs needle)"

definition onScanError :: "addr \<Rightarrow> js_string \<Rightarrow> world \<Rightarrow> world" where
  "onScanError this errorMessage w =
     (if \<not> scanning (heap w this) then w
      else if js_includes errorMessage (js ''NotFoundException'')
              \<or> js_includes errorMessage (js ''NotReadableError'')
      then updateStatus (js ''No QR code detected'') (js ''warning'') w
      else w)"

text \<open>\<open>cleanup\<close> calls \<open>stopCamera\<close> without awaiting it as well.\<close>

definition cleanup :: "addr \<Rightarrow> world \<Rightarrow> world" where
  "cleanup this w =
     update_this this (\<lambda>s. s\<lparr>html5QrCode := None, cameraStream := None, scanning := False\<rparr>)
       (stopScanTimer this (fst (stopCamera_begin this w)))"

section \<open>The global functions\<close>

definition closeQRScanner :: "world \<Rightarrow> world" where
  \<open>closeQRScanner w =
     (let w1 = (case qrScanner w of
                  None \<Rightarrow> w
                | Some a \<Rightarrow> (cleanup a w)\<lparr>qrScanner := None\<rparr>)
      in w1\<lparr>qrModal_display := js ''none'',
            scanResult_display := js ''none'',
            scannerError_display := js ''none'',
            scannerStatus_html := js ''<i class="fas fa-camera"></i> Ready to scan''\<rparr>)\<close>

section \<open>Example states\<close>

text \<open>
  A page on which the scanner has been opened and initialised: one scanner object, at
  address 0, with its library instance and the camera chosen by \<open>loadCameras\<close>; nothing
  scanned, no timer, no library call made yet. The engine words its \<open>TypeError\<close> as
  V8 does.
\<close>

definition openedPage :: world where
  "openedPage =
     \<lparr>heap = (\<lambda>_. newQRScanner)
         (0 := newQRScanner\<lparr>html5QrCode := Some 0, cameraId := Some (js ''camera-back'')\<rparr>),
      qrScanner = Some 0,
      scannedAadhaar = None,
      scannedQRData = None,
      qrModal_display = js ''flex'',
      scanResult_display = js ''none'',
      scannedData_text = [],
      scannerError_display = js ''none'',
      errorTitle_text = [],
      errorMessage_text = [],
      scannerStatus_html = statusLine (js ''Ready to scan'') (js ''info''),
      intervals = [],
      nextTimer = 1,
      timeouts = [],
      console = [],
      calls = [],
      capturing = [],
      nullErrorMessage = js ''Cannot read properties of null (reading 'start')''\<rparr>"

text \<open>The same page once \<open>startCamera()\<close> has run and the camera has started.\<close>

definition scanningPage :: world where
  "scanningPage = startCamera 0 None Resolved 1000 openedPage"

text \<open>The same page when \<open>startCamera()\<close> has got to its \<open>await\<close> and the camera has not started yet.\<close>

definition startingPage :: world where
  "startingPage = fst (startCamera_begin 0 None openedPage)"


section \<open>Auxiliary notions for the extraction properties\<close>

definition digitCount :: "js_string \<Rightarrow> nat" where
  "digitCount s = length (filter isDigit s)"

text \<open>Two strings are equal up to the case folding of the \<open>i\<close> flag.\<close>

definition ci_equal :: "js_string \<Rightarrow> js_string \<Rightarrow> bool" where
  "ci_equal a b = (map (canonicalize True) a = map (canonicalize True) b)"

text \<open>
  At offset \<open>k\<close> of \<open>s\<close> stands the label (in any case) immediately followed by at least
  twelve digits.
\<close>

definition labeledAt :: "js_string \<Rightarrow> js_string \<Rightarrow> nat \<Rightarrow> bool" where
  "labeledAt label s k =
     (length label + 12 \<le> length (drop k s)
      \<and> ci_equal (take (length label) (drop k s)) label
      \<and> list_all isDigit (take 12 (drop (length label + k) s)))"

text \<open>What a greedy \<open>\s?\<close> leaves of the input when a digit has to follow.\<close>

definition skipSpace :: "js_string \<Rightarrow> js_string" where
  "skipSpace rest = (case rest of [] \<Rightarrow> [] | x # xs \<Rightarrow> if isSpace x then xs else rest)"

definition digits4 :: "js_string \<Rightarrow> bool" where
  "digits4 rest = (4 \<le> length rest \<and> list_all isDigit (take 4 rest))"

text \<open>A pattern that cannot match where the input does not go on with a digit.\<close>

definition needsDigit :: "bool \<Rightarrow> regex \<Rightarrow> bool" where
  "needsDigit ic r = (\<forall>i x xs cap. \<not> isDigit x \<longrightarrow> rmatch ic r (i, x # xs, cap) = [])"

text \<open>
  A matcher state reached from another one: the index has moved forward over the input,
  and group 1 is unchanged or holds a piece of the input.
\<close>

fun extends :: "mstate \<Rightarrow> mstate \<Rightarrow> bool" where
  "extends (i, rest, cap) (j, rest', cap') =
     (i \<le> j \<and> rest' = drop (j - i) rest
      \<and> (cap' = cap \<or> (\<exists>c. cap' = Some c \<and> digitCount c \<le> digitCount rest)))"


section \<open>Properties of the matcher\<close>

lemma js_Nil [simp]: "js [] = []"
  by (simp add: js_def)

lemma js_Cons: "js (c # cs) = of_nat (of_char c) # js cs"
  by (simp add: js_def)

lemma length_js [simp]: "length (js s) = length s"
  by (simp add: js_def)

lemma space_not_digit: "isSpace x \<Longrightarrow> \<not> isDigit x"
  by (auto simp: isSpace_def isDigit_def word_le_nat_alt)

lemma rmatch_Rep_ClassD:
  "rmatch ic (Rep n ClassD) (i, rest, cap) =
     (if n \<le> length rest \<and> list_all isDigit (take n rest) then [(i + n, drop n rest, cap)] else [])"
proof (induction n arbitrary: i rest)
  case 0
  then show ?case by simp
next
  case (Suc n)
  show ?case
  proof (cases rest)
    case Nil
    then show ?thesis by simp
  next
    case (Cons x xs)
    then show ?thesis using Suc by simp
  qed
qed

lemma rmatch_lit:
  "rmatch ic (lit l) (i, rest, cap) =
     (if length l \<le> length rest
         \<and> map (canonicalize ic) (take (length l) rest) = map (canonicalize ic) l
      then [(i + length l, drop (length l) rest, cap)] else [])"
proof (induction l arbitrary: i rest)
  case Nil
  then show ?case by simp
next
  case (Cons c cs)
  show ?case
  proof (cases rest)
    case Nil
    then show ?thesis by simp
  next
    case (Cons x xs)
    then show ?thesis using Cons.IH by simp
  qed
qed

lemma rmatch_labeled:
  "rmatch ic (Seq (lit l) (Group (Rep n ClassD))) (i, rest, cap) =
     (if length l + n \<le> length rest
         \<and> map (canonicalize ic) (take (length l) rest) = map (canonicalize ic) l
         \<and> list_all isDigit (take n (drop (length l) rest))
      then [(i + length l + n, drop (length l + n) rest, Some (take n (drop (length l) rest)))]
      else [])"
  by (auto simp: rmatch_lit rmatch_Rep_ClassD add.commute)

lemma rmatch_Seq_Rep_ClassD:
  "rmatch ic (Seq (Rep n ClassD) r) (i, rest, cap) =
     (if n \<le> length rest \<and> list_all isDigit (take n rest)
      then rmatch ic r (i + n, drop n rest, cap) else [])"
  by (auto simp: rmatch_Rep_ClassD)

lemma rmatch_Group:
  "rmatch ic (Group a) (i, rest, cap) =
     map (\<lambda>st. (fst st, fst (snd st), Some (take (fst st - i) rest))) (rmatch ic a (i, rest, cap))"
  by (simp add: case_prod_beta)

lemma rmatch_plain:
  "rmatch ic (Seq Bol (Seq (Group (Rep 12 ClassD)) Eol)) (i, rest, cap) =
     (if i = 0 \<and> length rest = 12 \<and> list_all isDigit rest then [(12, [], Some rest)] else [])"
  by (auto simp: rmatch_Group rmatch_Rep_ClassD)

lemma needsDigit_Rep: "0 < n \<Longrightarrow> needsDigit ic (Rep n ClassD)"
  by (cases n) (auto simp: needsDigit_def rmatch_Rep_ClassD)

lemma needsDigit_Seq: "needsDigit ic a \<Longrightarrow> needsDigit ic (Seq a b)"
  by (simp add: needsDigit_def)

lemma length_skipSpace: "length (skipSpace r) \<le> length r"
  by (simp add: skipSpace_def split: list.splits)

lemma rmatch_Opt_ClassS:
  "needsDigit ic r \<Longrightarrow>
   rmatch ic (Seq (Opt ClassS) r) (i, rest, cap) =
     rmatch ic r (i + (length rest - length (skipSpace rest)), skipSpace rest, cap)"
proof (cases rest)
  case Nil
  then show ?thesis by (simp add: skipSpace_def)
next
  case (Cons x xs)
  assume nd: "needsDigit ic r"
  show ?thesis
  proof (cases "isSpace x")
    case True
    then have "rmatch ic r (i, x # xs, cap) = []"
      using nd space_not_digit by (simp add: needsDigit_def)
    with True Cons show ?thesis by (simp add: skipSpace_def)
  next
    case False
    with Cons show ?thesis by (simp add: skipSpace_def)
  qed
qed

lemma rmatch_grouped:
  "rmatch ic (Group (Seq (Rep 4 ClassD) (Seq (Opt ClassS) (Seq (Rep 4 ClassD)
                (Seq (Opt ClassS) (Rep 4 ClassD)))))) (i, rest, cap) =
     (let r1 = skipSpace (drop 4 rest); r2 = skipSpace (drop 4 r1); r3 = drop 4 r2 in
      if digits4 rest \<and> digits4 r1 \<and> digits4 r2
      then [(i + (length rest - length r3), r3, Some (take (length rest - length r3) rest))]
      else [])"
proof -
  have nd1: "needsDigit ic (Rep 4 ClassD)" by (simp add: needsDigit_Rep)
  have nd2: "needsDigit ic (Seq (Rep 4 ClassD) (Seq (Opt ClassS) (Rep 4 ClassD)))"
    by (simp add: needsDigit_Rep needsDigit_Seq)
  define r1 where "r1 = skipSpace (drop 4 rest)"
  define r2 where "r2 = skipSpace (drop 4 r1)"
  define r3 where "r3 = drop 4 r2"
  have l1: "length r1 \<le> length rest - 4"
    unfolding r1_def using length_skipSpace [of "drop 4 rest"] by simp
  have l2: "length r2 \<le> length r1 - 4"
    unfolding r2_def using length_skipSpace [of "drop 4 r1"] by simp
  have inner: "rmatch ic (Seq (Rep 4 ClassD) (Seq (Opt ClassS) (Seq (Rep 4 ClassD)
                (Seq (Opt ClassS) (Rep 4 ClassD))))) (i, rest, cap) =
     (if digits4 rest \<and> digits4 r1 \<and> digits4 r2
      then [(i + 4 + (length (drop 4 rest) - length r1) + 4
               + (length (drop 4 r1) - length r2) + 4, r3, cap)]
      else [])"
    by (simp only: rmatch_Seq_Rep_ClassD rmatch_Opt_ClassS [OF nd2] rmatch_Opt_ClassS [OF nd1]
        rmatch_Rep_ClassD digits4_def r1_def [symmetric] r2_def [symmetric] r3_def [symmetric]
        if_distrib split: if_splits) auto
  have arith: "digits4 rest \<Longrightarrow> digits4 r1 \<Longrightarrow> digits4 r2 \<Longrightarrow>
     4 + (length (drop 4 rest) - length r1) + 4 + (length (drop 4 r1) - length r2) + 4
       = length rest - length r3"
    using l1 l2 by (auto simp: digits4_def r3_def)
  show ?thesis
    using arith
    by (simp only: rmatch_Group inner Let_def r1_def [symmetric] r2_def [symmetric]
        r3_def [symmetric]) (auto simp: add.assoc)
qed


section \<open>Properties of the search\<close>

lemma search_None:
  "(\<And>k. k \<le> length rest \<Longrightarrow> rmatch ic r (i + k, drop k rest, None) = []) \<Longrightarrow>
   search ic r i rest = None"
proof (induction rest arbitrary: i)
  case Nil
  from Nil [of 0] show ?case by simp
next
  case (Cons x xs)
  have here: "rmatch ic r (i, x # xs, None) = []" using Cons.prems [of 0] by simp
  have "search ic r (Suc i) xs = None"
  proof (rule Cons.IH)
    fix k assume "k \<le> length xs"
    then show "rmatch ic r (Suc i + k, drop k xs, None) = []"
      using Cons.prems [of "Suc k"] by simp
  qed
  with here show ?case by simp
qed

lemma search_Some:
  "k \<le> length rest \<Longrightarrow>
   rmatch ic r (i + k, drop k rest, None) = (j, rest', cap) # sts \<Longrightarrow>
   (\<And>k'. k' < k \<Longrightarrow> rmatch ic r (i + k', drop k' rest, None) = []) \<Longrightarrow>
   search ic r i rest = Some (take (j - (i + k)) (drop k rest), cap)"
proof (induction k arbitrary: i rest)
  case 0
  then show ?case by simp
next
  case (Suc k)
  then obtain x xs where rest: "rest = x # xs" by (cases rest) auto
  have here: "rmatch ic r (i, rest, None) = []" using Suc.prems(3) [of 0] by simp
  have "search ic r (Suc i) xs = Some (take (j - (Suc i + k)) (drop k xs), cap)"
  proof (rule Suc.IH)
    show "k \<le> length xs" using Suc.prems(1) rest by simp
    show "rmatch ic r (Suc i + k, drop k xs, None) = (j, rest', cap) # sts"
      using Suc.prems(2) rest by simp
    fix k' assume "k' < k"
    then show "rmatch ic r (Suc i + k', drop k' xs, None) = []"
      using Suc.prems(3) [of "Suc k'"] rest by simp
  qed
  with here rest show ?case by simp
qed

lemma search_SomeD:
  "search ic r i rest = Some m \<Longrightarrow>
   \<exists>k j rest' cap sts. k \<le> length rest
      \<and> rmatch ic r (i + k, drop k rest, None) = (j, rest', cap) # sts
      \<and> m = (take (j - (i + k)) (drop k rest), cap)"
proof (induction rest arbitrary: i)
  case Nil
  then show ?case by (auto split: list.splits)
next
  case (Cons x xs)
  show ?case
  proof (cases "rmatch ic r (i, x # xs, None)")
    case Nil
    with Cons.prems have "search ic r (Suc i) xs = Some m" by simp
    from Cons.IH [OF this] obtain k j rest' cap sts where
      "k \<le> length xs" "rmatch ic r (Suc i + k, drop k xs, None) = (j, rest', cap) # sts"
      "m = (take (j - (Suc i + k)) (drop k xs), cap)" by blast
    then show ?thesis
      by (intro exI [of _ "Suc k"] exI [of _ j] exI [of _ rest'] exI [of _ cap] exI [of _ sts])
        simp
  next
    case (Cons st sts)
    obtain j rest' cap where "st = (j, rest', cap)" by (cases st) auto
    with Cons Cons.prems show ?thesis
      by (intro exI [of _ 0] exI [of _ j] exI [of _ rest'] exI [of _ cap] exI [of _ sts])
        simp
  qed
qed

declare search.simps [simp del]

subsection \<open>A match never holds more digits than the input\<close>

lemma digitCount_append [simp]: "digitCount (a @ b) = digitCount a + digitCount b"
  by (simp add: digitCount_def)

lemma digitCount_take: "digitCount (take n s) \<le> digitCount s"
proof -
  have "digitCount s = digitCount (take n s) + digitCount (drop n s)"
    by (metis append_take_drop_id digitCount_append)
  then show ?thesis by simp
qed

lemma digitCount_drop: "digitCount (drop n s) \<le> digitCount s"
proof -
  have "digitCount s = digitCount (take n s) + digitCount (drop n s)"
    by (metis append_take_drop_id digitCount_append)
  then show ?thesis by simp
qed

lemma extends_refl: "extends st st"
  by (cases st) simp

lemma extends_trans: "extends a b \<Longrightarrow> extends b c \<Longrightarrow> extends a c"
proof -
  assume ab: "extends a b" and bc: "extends b c"
  obtain i r p where a: "a = (i, r, p)" by (cases a) auto
  obtain j r' p' where b: "b = (j, r', p')" by (cases b) auto
  obtain k r'' p'' where c: "c = (k, r'', p'')" by (cases c) auto
  from ab a b have 1: "i \<le> j" "r' = drop (j - i) r"
    "p' = p \<or> (\<exists>c. p' = Some c \<and> digitCount c \<le> digitCount r)" by auto
  from bc b c have 2: "j \<le> k" "r'' = drop (k - j) r'"
    "p'' = p' \<or> (\<exists>c. p'' = Some c \<and> digitCount c \<le> digitCount r')" by auto
  have "digitCount r' \<le> digitCount r" using 1(2) digitCount_drop by simp
  with 1 2 have "p'' = p \<or> (\<exists>c. p'' = Some c \<and> digitCount c \<le> digitCount r)"
    by (auto intro: order_trans)
  moreover have "r'' = drop (k - i) r" using 1 2 by simp
  ultimately show ?thesis using 1(1) 2(1) a c by simp
qed

lemma rmatch_extends: "st' \<in> set (rmatch ic r st) \<Longrightarrow> extends st st'"
proof (induction ic r st arbitrary: st' rule: rmatch.induct)
  case (1 ic st)
  then show ?case by (simp add: extends_refl)
next
  case (2 ic c i rest cap)
  then show ?case by (auto split: list.splits if_splits)
next
  case (3 ic i rest cap)
  then show ?case by (auto split: list.splits if_splits)
next
  case (4 ic i rest cap)
  then show ?case by (auto split: list.splits if_splits)
next
  case (5 ic a b st)
  from "5.prems" obtain m where "m \<in> set (rmatch ic a st)" "st' \<in> set (rmatch ic b m)"
    by auto
  then show ?case using "5.IH" extends_trans by blast
next
  case (6 ic a st)
  from "6.prems" have "st' \<in> set (rmatch ic a st) \<or> st' = st" by auto
  then show ?case using "6.IH" extends_refl by blast
next
  case (7 ic a st)
  then show ?case by (simp add: extends_refl)
next
  case (8 ic n a st)
  from "8.prems" obtain m where "m \<in> set (rmatch ic a st)" "st' \<in> set (rmatch ic (Rep n a) m)"
    by auto
  then show ?case using "8.IH" extends_trans by blast
next
  case (9 ic a i rest cap)
  from "9.prems" obtain j rest' cap' where
    m: "(j, rest', cap') \<in> set (rmatch ic a (i, rest, cap))"
    and st': "st' = (j, rest', Some (take (j - i) rest))" by auto
  from "9.IH" [OF m] have "i \<le> j" "rest' = drop (j - i) rest" by auto
  then show ?case using st' digitCount_take by auto
next
  case (10 ic i rest cap)
  then show ?case by (auto split: if_splits)
next
  case (11 ic i rest cap)
  then show ?case by (auto split: if_splits)
qed

lemma search_digitCount:
  assumes "search ic r i rest = Some m"
  shows "digitCount (captured m) \<le> digitCount rest"
proof -
  from search_SomeD [OF assms] obtain k j rest' cap sts where
    k: "k \<le> length rest"
    and rm: "rmatch ic r (i + k, drop k rest, None) = (j, rest', cap) # sts"
    and m: "m = (take (j - (i + k)) (drop k rest), cap)" by blast
  from rm have "(j, rest', cap) \<in> set (rmatch ic r (i + k, drop k rest, None))" by simp
  from rmatch_extends [OF this]
  have cap: "cap = None \<or> (\<exists>c. cap = Some c \<and> digitCount c \<le> digitCount (drop k rest))"
    by simp
  have a: "digitCount (take (j - (i + k)) (drop k rest)) \<le> digitCount rest"
    using digitCount_take digitCount_drop order_trans by blast
  have b: "\<And>c. digitCount c \<le> digitCount (drop k rest) \<Longrightarrow> digitCount c \<le> digitCount rest"
    using digitCount_drop order_trans by blast
  show ?thesis using cap a b m by (auto simp: captured_def)
qed

section \<open>Properties of the extraction\<close>

lemma removeNonDigits_filter: "removeNonDigits s = filter isDigit s"
  by (simp add: removeNonDigits_def isNonDigit_def)


lemma extractLoop_valid:
  "extractLoop ps s = Some r \<Longrightarrow> length r = 12 \<and> list_all isDigit r"
  by (induction ps) (auto simp: Let_def testAllDigits_def split: option.splits if_splits)

lemma extractLoop_digitCount:
  "extractLoop ps s = Some r \<Longrightarrow> 12 \<le> digitCount s"
proof (induction ps)
  case Nil
  then show ?case by simp
next
  case (Cons p ps)
  show ?case
  proof (cases "js_match p s")
    case None
    with Cons show ?thesis by simp
  next
    case (Some m)
    show ?thesis
    proof (cases "length (removeNonDigits (captured m)) = 12
                  \<and> testAllDigits (removeNonDigits (captured m))")
      case True
      then have "digitCount (captured m) = 12"
        by (simp add: removeNonDigits_filter digitCount_def)
      moreover have "digitCount (captured m) \<le> digitCount s"
        using Some search_digitCount by (simp add: js_match_def)
      ultimately show ?thesis by simp
    next
      case False
      with Some Cons show ?thesis by (simp add: Let_def)
    qed
  qed
qed


subsection \<open>The labelled patterns\<close>

lemma labeledAt_bound: "labeledAt l s k \<Longrightarrow> k < length s"
  unfolding labeledAt_def length_drop by arith

lemma rmatch_labeledAt:
  "rmatch True (Seq (lit l) (Group (Rep 12 ClassD))) (i, drop k s, None) =
     (if labeledAt l s k
      then [(i + length l + 12, drop (length l + 12) (drop k s),
             Some (take 12 (drop (length l + k) s)))]
      else [])"
  by (simp add: rmatch_labeled labeledAt_def ci_equal_def add.commute del: rmatch.simps)


lemma search_labeled_None:
  assumes "\<And>k. \<not> labeledAt l s k"
  shows "search True (Seq (lit l) (Group (Rep 12 ClassD))) 0 s = None"
  by (rule search_None) (simp add: rmatch_labeledAt assms del: rmatch.simps)









subsection \<open>Strings of digits and white space\<close>

lemma not_label_start:
  "isDigit x \<or> isSpace x \<Longrightarrow> canonicalize True x \<noteq> 0x41 \<and> canonicalize True x \<noteq> 0x55"
  by (auto simp: canonicalize_def isDigit_def isSpace_def word_le_nat_alt)

lemma labeledAt_first:
  assumes "labeledAt (c # cs) s k"
  shows "k < length s \<and> canonicalize True (s ! k) = canonicalize True c"
proof -
  have k: "k < length s" using assms by (rule labeledAt_bound)
  then have "drop k s = s ! k # drop (Suc k) s" by (simp add: Cons_nth_drop_Suc)
  with assms have "ci_equal (take (length (c # cs)) (s ! k # drop (Suc k) s)) (c # cs)"
    by (simp add: labeledAt_def)
  then show ?thesis using k by (simp add: ci_equal_def)
qed

lemma no_label:
  assumes "list_all (\<lambda>c. isDigit c \<or> isSpace c) s"
  shows "\<not> labeledAt (js ''AADHAAR:'') s k" and "\<not> labeledAt (js ''UID:'') s k"
proof -
  have P: "\<And>k. k < length s \<Longrightarrow> isDigit (s ! k) \<or> isSpace (s ! k)"
    using assms by (simp add: list_all_length)
  show "\<not> labeledAt (js ''AADHAAR:'') s k"
  proof
    assume "labeledAt (js ''AADHAAR:'') s k"
    then have "labeledAt (0x41 # js ''ADHAAR:'') s k" by (simp add: js_Cons)
    from labeledAt_first [OF this] have "k < length s" "canonicalize True (s ! k) = 0x41"
      by (simp_all add: canonicalize_def)
    with P [of k] not_label_start [of "s ! k"] show False by blast
  qed
  show "\<not> labeledAt (js ''UID:'') s k"
  proof
    assume "labeledAt (js ''UID:'') s k"
    then have "labeledAt (0x55 # js ''ID:'') s k" by (simp add: js_Cons)
    from labeledAt_first [OF this] have "k < length s" "canonicalize True (s ! k) = 0x55"
      by (simp_all add: canonicalize_def)
    with P [of k] not_label_start [of "s ! k"] show False by blast
  qed
qed

lemma no_label_match:
  assumes "list_all (\<lambda>c. isDigit c \<or> isSpace c) s"
  shows "js_match pat_aadhaar s = None" and "js_match pat_uid s = None"
  using search_labeled_None [of "js ''AADHAAR:''" s] search_labeled_None [of "js ''UID:''" s]
    no_label [OF assms]
  by (simp_all add: js_match_def pat_aadhaar_def pat_uid_def)

lemma skipSpace_digit: "isDigit x \<Longrightarrow> skipSpace (x # r) = x # r"
  using space_not_digit [of x] by (auto simp: skipSpace_def)

lemma skipSpace_space: "isSpace x \<Longrightarrow> skipSpace (x # r) = r"
  by (simp add: skipSpace_def)

lemma skipSpace_sep:
  assumes "length sep \<le> 1" "list_all isSpace sep" "length g = 4" "list_all isDigit g"
  shows "skipSpace (sep @ g @ r) = g @ r"
proof -
  obtain x g' where g: "g = x # g'" using assms(3) by (cases g) auto
  then have x: "isDigit x" using assms(4) by simp
  show ?thesis
  proof (cases sep)
    case Nil
    then show ?thesis using g x by (simp add: skipSpace_digit)
  next
    case (Cons a as)
    then have "as = []" "isSpace a" using assms(1,2) by simp_all
    with Cons show ?thesis by (simp add: skipSpace_space)
  qed
qed

lemma digits4_append: "length g = 4 \<Longrightarrow> list_all isDigit g \<Longrightarrow> digits4 (g @ r)"
  by (simp add: digits4_def)

lemma js_match_grouped_whole:
  assumes g: "length g1 = 4" "length g2 = 4" "length g3 = 4"
      "list_all isDigit g1" "list_all isDigit g2" "list_all isDigit g3"
    and sep: "length sep1 \<le> 1" "list_all isSpace sep1" "length sep2 \<le> 1" "list_all isSpace sep2"
  shows "js_match pat_grouped (g1 @ sep1 @ g2 @ sep2 @ g3) = Some (g1 @ sep1 @ g2 @ sep2 @ g3, Some (g1 @ sep1 @ g2 @ sep2 @ g3))"
proof -
  let ?s = "g1 @ sep1 @ g2 @ sep2 @ g3"
  let ?r = "Group (Seq (Rep 4 ClassD) (Seq (Opt ClassS) (Seq (Rep 4 ClassD)
                (Seq (Opt ClassS) (Rep 4 ClassD)))))"
  have r1: "skipSpace (drop 4 ?s) = g2 @ sep2 @ g3"
    using g sep skipSpace_sep [of sep1 g2 "sep2 @ g3"] by simp
  have r2: "skipSpace (drop 4 (g2 @ sep2 @ g3)) = g3"
    using g sep skipSpace_sep [of sep2 g3 "[]"] by simp
  have d: "digits4 ?s" "digits4 (g2 @ sep2 @ g3)" "digits4 g3"
    using g digits4_append [of g1] digits4_append [of g2] digits4_append [of g3 "[]"]
    by simp_all
  have "rmatch False ?r (0, ?s, None) = [(length ?s, [], Some ?s)]"
    unfolding rmatch_grouped Let_def r1 r2 using d g by simp
  then have "rmatch False ?r (0 + 0, drop 0 ?s, None) = (length ?s, [], Some ?s) # []"
    by simp
  from search_Some [OF _ this] have "search False ?r 0 ?s = Some (?s, Some ?s)" by simp
  then show ?thesis by (simp add: js_match_def pat_grouped_def)
qed

lemma extract_grouped:
  assumes g: "length g1 = 4" "length g2 = 4" "length g3 = 4"
      "list_all isDigit g1" "list_all isDigit g2" "list_all isDigit g3"
    and sep: "length sep1 \<le> 1" "list_all isSpace sep1" "length sep2 \<le> 1" "list_all isSpace sep2"
  shows "extractAadhaarNumber (g1 @ sep1 @ g2 @ sep2 @ g3) = Some (g1 @ g2 @ g3)"
proof -
  let ?s = "g1 @ sep1 @ g2 @ sep2 @ g3"
  have ds: "list_all (\<lambda>c. isDigit c \<or> isSpace c) ?s"
    using g sep by (auto simp: list_all_iff)
  have nosp: "\<And>sep. list_all isSpace sep \<Longrightarrow> filter isDigit sep = []"
    using space_not_digit by (auto simp: list_all_iff filter_empty_conv)
  have dig: "\<And>g. list_all isDigit g \<Longrightarrow> filter isDigit g = g"
    by (simp add: list_all_iff)
  have clean: "removeNonDigits ?s = g1 @ g2 @ g3"
    using g sep by (simp add: removeNonDigits_filter nosp dig)
  have ne: "?s \<noteq> []" using g by auto
  have acc: "(let aadhaar = removeNonDigits (captured (?s, Some ?s)) in
      if length aadhaar = 12 \<and> testAllDigits aadhaar then Some aadhaar else other) = Some (g1 @ g2 @ g3)"
    for other
    using g ne clean by (auto simp: captured_def Let_def testAllDigits_def)
  show ?thesis
    unfolding extractAadhaarNumber_def aadhaarPatterns_def
    by (simp only: extractLoop.simps no_label_match [OF ds] js_match_grouped_whole [OF g sep]
        option.case acc)
qed

lemma digits4_count: "digits4 r \<Longrightarrow> digitCount r = 4 + digitCount (drop 4 r)"
proof -
  assume d: "digits4 r"
  then have "filter isDigit (take 4 r) = take 4 r" by (simp add: digits4_def list_all_iff)
  then have "digitCount (take 4 r) = 4" using d by (simp add: digitCount_def digits4_def)
  moreover have "digitCount r = digitCount (take 4 r) + digitCount (drop 4 r)"
    by (metis append_take_drop_id digitCount_append)
  ultimately show ?thesis by simp
qed

lemma digitCount_skipSpace: "digitCount (skipSpace r) \<le> digitCount r"
  by (cases r) (auto simp: skipSpace_def digitCount_def)

lemma grouped_needs_12:
  assumes "digits4 rest" "digits4 (skipSpace (drop 4 rest))"
    "digits4 (skipSpace (drop 4 (skipSpace (drop 4 rest))))"
  shows "12 \<le> digitCount rest"
proof -
  let ?r1 = "skipSpace (drop 4 rest)"
  let ?r2 = "skipSpace (drop 4 ?r1)"
  have "digitCount rest = 4 + digitCount (drop 4 rest)" using assms(1) by (rule digits4_count)
  moreover have "digitCount ?r1 \<le> digitCount (drop 4 rest)" by (rule digitCount_skipSpace)
  moreover have "digitCount ?r1 = 4 + digitCount (drop 4 ?r1)" using assms(2) by (rule digits4_count)
  moreover have "digitCount ?r2 \<le> digitCount (drop 4 ?r1)" by (rule digitCount_skipSpace)
  moreover have "digitCount ?r2 = 4 + digitCount (drop 4 ?r2)" using assms(3) by (rule digits4_count)
  ultimately show ?thesis by simp
qed

lemma wide_gap:
  assumes "2 \<le> length w" "list_all isSpace w"
  shows "\<not> digits4 (skipSpace (w @ r))"
proof -
  obtain a b ws where w: "w = a # b # ws"
    using assms(1) by (cases w; cases "tl w") auto
  then have "isSpace a" "isSpace b" using assms(2) by simp_all
  then have "skipSpace (w @ r) = b # ws @ r" "\<not> isDigit b"
    using w space_not_digit by (simp_all add: skipSpace_space)
  then show ?thesis by (simp add: digits4_def)
qed

lemma rmatch_grouped_fail:
  assumes "\<not> (digits4 rest \<and> digits4 (skipSpace (drop 4 rest))
      \<and> digits4 (skipSpace (drop 4 (skipSpace (drop 4 rest)))))"
  shows "rmatch ic (Group (Seq (Rep 4 ClassD) (Seq (Opt ClassS) (Seq (Rep 4 ClassD)
                (Seq (Opt ClassS) (Rep 4 ClassD)))))) (i, rest, cap) = []"
  using assms unfolding rmatch_grouped Let_def by simp

lemma rmatch_grouped_few:
  assumes "digitCount rest < 12"
  shows "rmatch ic (Group (Seq (Rep 4 ClassD) (Seq (Opt ClassS) (Seq (Rep 4 ClassD)
                (Seq (Opt ClassS) (Rep 4 ClassD)))))) (i, rest, cap) = []"
proof (rule rmatch_grouped_fail)
  show "\<not> (digits4 rest \<and> digits4 (skipSpace (drop 4 rest))
      \<and> digits4 (skipSpace (drop 4 (skipSpace (drop 4 rest)))))"
    using grouped_needs_12 [of rest] assms by auto
qed

lemma js_match_grouped_None:
  assumes g: "length g1 = 4" "length g2 = 4" "length g3 = 4"
      "list_all isDigit g1" "list_all isDigit g2" "list_all isDigit g3"
    and w: "list_all isSpace w1" "list_all isSpace w2"
    and wide: "2 \<le> length w1 \<or> 2 \<le> length w2"
  shows "js_match pat_grouped (g1 @ w1 @ g2 @ w2 @ g3) = None"
proof -
  let ?s = "g1 @ w1 @ g2 @ w2 @ g3"
  let ?r = "Group (Seq (Rep 4 ClassD) (Seq (Opt ClassS) (Seq (Rep 4 ClassD)
                (Seq (Opt ClassS) (Rep 4 ClassD)))))"
  have nosp: "\<And>sep. list_all isSpace sep \<Longrightarrow> filter isDigit sep = []"
    using space_not_digit by (auto simp: list_all_iff filter_empty_conv)
  have dig: "\<And>g. list_all isDigit g \<Longrightarrow> filter isDigit g = g"
    by (simp add: list_all_iff)
  have count: "digitCount ?s = 12" using g w by (simp add: digitCount_def nosp dig)
  obtain x g1' where g1: "g1 = x # g1'" using g(1) by (cases g1) auto
  then have x: "isDigit x" using g(4) by simp
  define t where "t = g1' @ w1 @ g2 @ w2 @ g3"
  have s: "?s = x # t" by (simp add: g1 t_def)
  have t: "digitCount t = 11" using count x unfolding s by (simp add: digitCount_def)
  have d4: "drop 4 ?s = w1 @ g2 @ w2 @ g3" using g(1) by simp
  have d4': "drop 4 (g2 @ w2 @ g3) = w2 @ g3" using g(2) by simp
  have start: "\<not> (digits4 ?s \<and> digits4 (skipSpace (drop 4 ?s))
      \<and> digits4 (skipSpace (drop 4 (skipSpace (drop 4 ?s)))))"
  proof (cases "2 \<le> length w1")
    case True
    then have "\<not> digits4 (skipSpace (w1 @ g2 @ w2 @ g3))" using w(1) by (rule wide_gap)
    then show ?thesis unfolding d4 by blast
  next
    case False
    then have w1: "length w1 \<le> 1" and w2: "2 \<le> length w2" using wide by auto
    have r1: "skipSpace (w1 @ g2 @ w2 @ g3) = g2 @ w2 @ g3"
      using w1 w(1) g(2) g(5) by (rule skipSpace_sep)
    have "\<not> digits4 (skipSpace (w2 @ g3))" using w2 w(2) by (rule wide_gap)
    then show ?thesis unfolding d4 r1 d4' by blast
  qed
  have "search False ?r 0 ?s = None"
  proof (rule search_None)
    fix k assume "k \<le> length ?s"
    show "rmatch False ?r (0 + k, drop k ?s, None) = []"
    proof (cases k)
      case 0
      show ?thesis unfolding 0 by (simp only: drop_0 rmatch_grouped_fail [OF start])
    next
      case (Suc k')
      have "digitCount (drop k ?s) = digitCount (drop k' t)" unfolding s Suc by simp
      also have "\<dots> \<le> digitCount t" by (rule digitCount_drop)
      finally have "digitCount (drop k ?s) < 12" using t by simp
      then show ?thesis by (rule rmatch_grouped_few)
    qed
  qed
  then show ?thesis by (simp add: js_match_def pat_grouped_def)
qed

lemma js_match_plain_None:
  assumes "length s \<noteq> 12"
  shows "js_match pat_plain s = None"
proof -
  have "search False (Seq Bol (Seq (Group (Rep 12 ClassD)) Eol)) 0 s = None"
  proof (rule search_None)
    fix k assume "k \<le> length s"
    then show "rmatch False (Seq Bol (Seq (Group (Rep 12 ClassD)) Eol)) (0 + k, drop k s, None) = []"
      using assms unfolding rmatch_plain by auto
  qed
  then show ?thesis by (simp add: js_match_def pat_plain_def)
qed

lemma extract_wide_gap:
  assumes g: "length g1 = 4" "length g2 = 4" "length g3 = 4"
      "list_all isDigit g1" "list_all isDigit g2" "list_all isDigit g3"
    and w: "list_all isSpace w1" "list_all isSpace w2"
    and wide: "2 \<le> length w1 \<or> 2 \<le> length w2"
  shows "extractAadhaarNumber (g1 @ w1 @ g2 @ w2 @ g3) = None"
proof -
  let ?s = "g1 @ w1 @ g2 @ w2 @ g3"
  have ds: "list_all (\<lambda>c. isDigit c \<or> isSpace c) ?s"
    using g w by (auto simp: list_all_iff)
  have len: "length ?s \<noteq> 12" using g wide by auto
  show ?thesis
    unfolding extractAadhaarNumber_def aadhaarPatterns_def
    by (simp only: extractLoop.simps no_label_match [OF ds] js_match_grouped_None [OF g w wide]
        js_match_plain_None [OF len] option.case)
qed

section \<open>Claims about the extraction\<close>

text \<open>
  C4: for every input string, \<open>extractAadhaarNumber\<close> returns either nothing or a string
  of exactly 12 code units, each of them a decimal digit.
\<close>

theorem extract_result_invariant:
  "extractAadhaarNumber s = None
   \<or> (\<exists>r. extractAadhaarNumber s = Some r \<and> length r = 12 \<and> list_all isDigit r)"
  using extractLoop_valid [of aadhaarPatterns s]
  by (cases "extractAadhaarNumber s") (simp_all add: extractAadhaarNumber_def)

text \<open>The invariant at an input for which a number is returned.\<close>

theorem extract_result_invariant_witness:
  "extractAadhaarNumber (js ''uid:987654321098'') = Some (js ''987654321098'')
   \<and> length (js ''987654321098'') = 12 \<and> list_all isDigit (js ''987654321098'')"
proof -
  have h: "extractAadhaarNumber (js ''uid:987654321098'') = Some (js ''987654321098'')"
    by code_simp
  show ?thesis using h extract_result_invariant [of "js ''uid:987654321098''"] by auto
qed

text \<open>
  C1 as stated fails: a labelled payload whose other fields carry digits has more than 12
  digits after stripping the non-digits, and its labelled number is still returned.
\<close>

theorem more_digits_counterexample:
  "12 < length (removeNonDigits (js ''AADHAAR:123456789012|PIN:560001''))
   \<and> extractAadhaarNumber (js ''AADHAAR:123456789012|PIN:560001'') = Some (js ''123456789012'')"
  by code_simp

text \<open>
  C1, amended: for every input string whose digits, after stripping all non-digit
  characters, number fewer than 12, \<open>extractAadhaarNumber\<close> returns nothing.
\<close>

theorem fewer_digits_rejected:
  "length (removeNonDigits s) < 12 \<Longrightarrow> extractAadhaarNumber s = None"
proof (cases "extractAadhaarNumber s")
  case None
  then show ?thesis .
next
  case (Some r)
  assume "length (removeNonDigits s) < 12"
  moreover have "12 \<le> digitCount s"
    using Some extractLoop_digitCount by (simp add: extractAadhaarNumber_def)
  ultimately show ?thesis by (simp add: removeNonDigits_filter digitCount_def)
qed

text \<open>The input \<open>12345\<close> of the specification.\<close>

theorem fewer_digits_rejected_witness:
  "length (removeNonDigits (js ''12345'')) < 12 \<and> extractAadhaarNumber (js ''12345'') = None"
proof -
  have h: "length (removeNonDigits (js ''12345'')) < 12" by code_simp
  show ?thesis using h fewer_digits_rejected [OF h] by simp
qed





text \<open>
  C3: for every string made of three groups of 4 digits, each two neighbours either
  joined directly or separated by a single space (or any other single white-space
  character), \<open>extractAadhaarNumber\<close> returns the 12 digits of the groups; in particular
  every string that is exactly 12 decimal digits is returned unchanged.
\<close>

theorem grouped_extraction:
  "(length g1 = 4 \<and> length g2 = 4 \<and> length g3 = 4 \<and> list_all isDigit (g1 @ g2 @ g3)
      \<and> length sep1 \<le> 1 \<and> list_all isSpace sep1 \<and> length sep2 \<le> 1 \<and> list_all isSpace sep2
      \<longrightarrow> extractAadhaarNumber (g1 @ sep1 @ g2 @ sep2 @ g3) = Some (g1 @ g2 @ g3))
   \<and> (length d = 12 \<and> list_all isDigit d \<longrightarrow> extractAadhaarNumber d = Some d)"
proof (intro conjI impI)
  assume "length g1 = 4 \<and> length g2 = 4 \<and> length g3 = 4 \<and> list_all isDigit (g1 @ g2 @ g3)
      \<and> length sep1 \<le> 1 \<and> list_all isSpace sep1 \<and> length sep2 \<le> 1 \<and> list_all isSpace sep2"
  then show "extractAadhaarNumber (g1 @ sep1 @ g2 @ sep2 @ g3) = Some (g1 @ g2 @ g3)"
    using extract_grouped [of g1 g2 g3 sep1 sep2] by simp
next
  assume d: "length d = 12 \<and> list_all isDigit d"
  let ?a = "take 4 d" and ?b = "take 4 (drop 4 d)" and ?c = "drop 8 d"
  have split: "?a @ ?b @ ?c = d"
    using append_take_drop_id [of 4 "drop 4 d"] append_take_drop_id [of 4 d] by simp
  have dig: "list_all isDigit ?a" "list_all isDigit ?b" "list_all isDigit ?c"
    using d by (auto simp: list_all_iff dest: in_set_takeD in_set_dropD)
  have "extractAadhaarNumber (?a @ [] @ ?b @ [] @ ?c) = Some (?a @ ?b @ ?c)"
    by (rule extract_grouped) (use d dig in simp_all)
  then show "extractAadhaarNumber d = Some d" using split by simp
qed

text \<open>The inputs \<open>1234 5678 9012\<close> and \<open>123456789012\<close>.\<close>

theorem grouped_extraction_witness:
  "extractAadhaarNumber (js ''1234 5678 9012'') = Some (js ''123456789012'')
   \<and> extractAadhaarNumber (js ''123456789012'') = Some (js ''123456789012'')"
proof -
  have e: "js ''1234 5678 9012'' = js ''1234'' @ js '' '' @ js ''5678'' @ js '' '' @ js ''9012''"
    "js ''123456789012'' = js ''1234'' @ js ''5678'' @ js ''9012''"
    by (simp_all add: js_def)
  have h: "length (js ''1234'') = 4 \<and> length (js ''5678'') = 4 \<and> length (js ''9012'') = 4
      \<and> list_all isDigit (js ''1234'' @ js ''5678'' @ js ''9012'')
      \<and> length (js '' '') \<le> 1 \<and> list_all isSpace (js '' '')
      \<and> length (js '' '') \<le> 1 \<and> list_all isSpace (js '' '')"
    by code_simp
  have h2: "length (js ''123456789012'') = 12 \<and> list_all isDigit (js ''123456789012'')"
    by code_simp
  show ?thesis
    using grouped_extraction [of "js ''1234''" "js ''5678''" "js ''9012''" "js '' ''" "js '' ''"
        "js ''123456789012''"] h h2 e
    by simp
qed

text \<open>
  C10: for every input made of three groups of 4 digits with white space between them,
  two or more white-space characters in at least one of the two gaps,
  \<open>extractAadhaarNumber\<close> returns nothing, although stripping the non-digits leaves
  exactly 12 digits.
\<close>

theorem wide_gap_rejected:
  assumes "length g1 = 4" "length g2 = 4" "length g3 = 4"
    and "list_all isDigit g1" "list_all isDigit g2" "list_all isDigit g3"
    and "list_all isSpace w1" "list_all isSpace w2"
    and "2 \<le> length w1 \<or> 2 \<le> length w2"
  shows "length (removeNonDigits (g1 @ w1 @ g2 @ w2 @ g3)) = 12
         \<and> extractAadhaarNumber (g1 @ w1 @ g2 @ w2 @ g3) = None"
proof -
  have nosp: "\<And>sep. list_all isSpace sep \<Longrightarrow> filter isDigit sep = []"
    using space_not_digit by (auto simp: list_all_iff filter_empty_conv)
  have dig: "\<And>g. list_all isDigit g \<Longrightarrow> filter isDigit g = g"
    by (simp add: list_all_iff)
  have "length (removeNonDigits (g1 @ w1 @ g2 @ w2 @ g3)) = 12"
    using assms by (simp add: removeNonDigits_filter nosp dig)
  then show ?thesis using extract_wide_gap [OF assms] by simp
qed

text \<open>The input \<open>1234  5678 9012\<close>, with two spaces in the first gap.\<close>

theorem wide_gap_rejected_witness:
  "length (removeNonDigits (js ''1234  5678 9012'')) = 12
   \<and> extractAadhaarNumber (js ''1234  5678 9012'') = None"
proof -
  have e: "js ''1234  5678 9012'' = js ''1234'' @ js ''  '' @ js ''5678'' @ js '' '' @ js ''9012''"
    by (simp add: js_def)
  have l: "length (js ''1234'') = 4" "length (js ''5678'') = 4" "length (js ''9012'') = 4"
    by simp_all
  have d: "list_all isDigit (js ''1234'')" "list_all isDigit (js ''5678'')"
    "list_all isDigit (js ''9012'')" by code_simp+
  have w: "list_all isSpace (js ''  '')" "list_all isSpace (js '' '')" by code_simp+
  have wide: "2 \<le> length (js ''  '') \<or> 2 \<le> length (js '' '')" by simp
  show ?thesis using wide_gap_rejected [OF l d w wide] e by simp
qed


section \<open>Properties of the session\<close>

lemmas session_defs = startCamera_def startCamera_begin_def
  startCamera_resume_def resume_def stopCamera_def stopCamera_begin_def stopCamera_resume_def
  truthy_def updateStatus_def showError_def showScanResult_def startScanTimer_def stopScanTimer_def
  update_this_def cleanup_def closeQRScanner_def onScanSuccess_def onScanError_def invalidQRCode_def
  switchCamera_def runTask_def

lemmas page_defs = scanningPage_def startingPage_def openedPage_def newQRScanner_def

lemma js_eq_Nil [simp]: "(js s = []) = (s = [])"
  by (simp add: js_def)

lemma onScanError_status:
  "onScanError this m w = w\<lparr>scannerStatus_html := scannerStatus_html (onScanError this m w)\<rparr>"
  by (simp add: onScanError_def updateStatus_def)

lemma onScanError_not_scanning: "\<not> scanning (heap w this) \<Longrightarrow> onScanError this m w = w"
  by (simp add: onScanError_def)

lemma fold_onScanError:
  "fold (onScanError this) msgs w =
     w\<lparr>scannerStatus_html := scannerStatus_html (fold (onScanError this) msgs w)\<rparr>"
proof (induction msgs arbitrary: w)
  case Nil
  then show ?case by simp
next
  case (Cons m ms)
  let ?w1 = "onScanError this m w"
  have "fold (onScanError this) (m # ms) w = fold (onScanError this) ms ?w1" by simp
  also have "\<dots> = ?w1\<lparr>scannerStatus_html := scannerStatus_html (fold (onScanError this) ms ?w1)\<rparr>"
    by (rule Cons.IH)
  also have "\<dots> = w\<lparr>scannerStatus_html := scannerStatus_html (fold (onScanError this) ms ?w1)\<rparr>"
    by (subst onScanError_status) simp
  finally show ?case by simp
qed

lemma scanningPage_fields:
  "scanning (heap scanningPage 0)" "html5QrCode (heap scanningPage 0) = Some 0"
  "cameraId (heap scanningPage 0) = Some (js ''camera-back'')"
  "scanTimer (heap scanningPage 0) = Some 1"
  "qrScanner scanningPage = Some 0" "capturing scanningPage = [0]" "intervals scanningPage = [1]"
  "calls scanningPage = [StartCall 0 0 (js ''camera-back'')]"
  "scannedAadhaar scanningPage = None" "scannedQRData scanningPage = None"
  "scannerError_display scanningPage = js ''none''" "console scanningPage = []"
  "timeouts scanningPage = []" "nextTimer scanningPage = 2"
  by (simp_all add: page_defs session_defs Let_def)

lemma invalid_url: "extractAadhaarNumber (js ''https://example.org/menu'') = None"
  by code_simp

lemma onScanSuccess_invalid:
  assumes "extractAadhaarNumber text = None"
  shows "onScanSuccess this text w =
     w\<lparr>console := console w @ [ConsoleLog (js ''QR Code scanned:'') text],
       errorTitle_text := js ''Invalid QR Code'',
       errorMessage_text := js ''This QR code does not contain a valid Aadhaar number.'',
       scannerError_display := js ''block'',
       scannerStatus_html := statusLine (js ''Invalid QR Code'') (js ''error''),
       timeouts := timeouts w @ [(2000, StatusScanning this)]\<rparr>"
  using assms by (simp add: session_defs Let_def)

lemma labeled_example: "extractAadhaarNumber (js ''AADHAAR:123456789012'') = Some (js ''123456789012'')"
  by code_simp

lemma onScanSuccess_stores:
  assumes "extractAadhaarNumber text = Some a"
  shows "scannedAadhaar (onScanSuccess this text w) = Some a"
    and "scannedQRData (onScanSuccess this text w) = Some text"
    and "scanResult_display (onScanSuccess this text w) = js ''block''"
proof -
  have "a \<noteq> []" using assms extractLoop_valid [of aadhaarPatterns "text" a]
    by (auto simp: extractAadhaarNumber_def)
  then show "scannedAadhaar (onScanSuccess this text w) = Some a"
    and "scannedQRData (onScanSuccess this text w) = Some text"
    and "scanResult_display (onScanSuccess this text w) = js ''block''"
    using assms by (simp_all add: onScanSuccess_def truthy_def showScanResult_def updateStatus_def Let_def)
qed

lemma closed_scanningPage:
  "\<not> scanning (heap (closeQRScanner scanningPage) 0)"
  "qrScanner (closeQRScanner scanningPage) = None"
  "scannedAadhaar (closeQRScanner scanningPage) = None"
  "scannedQRData (closeQRScanner scanningPage) = None"
  "scanResult_display (closeQRScanner scanningPage) = js ''none''"
  "calls (closeQRScanner scanningPage) = [StartCall 0 0 (js ''camera-back''), StopCall 0 0]"
  "intervals (closeQRScanner scanningPage) = []"
  by (simp_all add: page_defs session_defs Let_def)

lemma closeQRScanner_idem: "closeQRScanner (closeQRScanner w) = closeQRScanner w"
  by (cases "qrScanner w") (simp_all add: closeQRScanner_def Let_def)

lemma closeQRScanner_scanning:
  assumes "qrScanner w = Some a" "html5QrCode (heap w a) = Some h" "scanning (heap w a)"
  shows "calls (closeQRScanner w) = calls w @ [StopCall a h]"
    and "\<not> scanning (heap (closeQRScanner w) a)"
    and "qrScanner (closeQRScanner w) = None"
  using assms by (simp_all add: session_defs Let_def split: option.splits)

lemma closeQRScanner_not_scanning:
  assumes "qrScanner w = Some a" "\<not> scanning (heap w a)"
  shows "calls (closeQRScanner w) = calls w"
  using assms by (simp add: session_defs Let_def split: option.splits)








section \<open>Claims about the session\<close>

text \<open>
  C5 fails on the code. When \<open>closeQRScanner\<close> runs while \<open>startCamera\<close> is waiting for
  the camera to start, \<open>scanning\<close> is still false, so \<open>cleanup\<close> calls no
  \<open>html5QrCode.stop()\<close>; closing twice does not raise and changes nothing further, but
  when the start then resolves, the forgotten scanner object is set to scanning, a new
  interval timer runs and the library instance holds the camera, and a later
  \<open>closeQRScanner\<close> finds no scanner to clean up: the capture resource is not released.
\<close>

theorem close_while_starting_leaks:
  "qrScanner startingPage = Some 0
   \<and> calls startingPage = [StartCall 0 0 (js ''camera-back'')]
   \<and> capturing startingPage = []
   \<and> intervals startingPage = []
   \<and> calls (closeQRScanner startingPage) = [StartCall 0 0 (js ''camera-back'')]
   \<and> qrScanner (closeQRScanner startingPage) = None
   \<and> closeQRScanner (closeQRScanner startingPage) = closeQRScanner startingPage
   \<and> capturing (resume (StartCall 0 0 (js ''camera-back'')) Resolved 2000
         (closeQRScanner (closeQRScanner startingPage))) = [0]
   \<and> intervals (resume (StartCall 0 0 (js ''camera-back'')) Resolved 2000
         (closeQRScanner (closeQRScanner startingPage))) = [1]
   \<and> scanning (heap (resume (StartCall 0 0 (js ''camera-back'')) Resolved 2000
         (closeQRScanner (closeQRScanner startingPage))) 0)
   \<and> calls (closeQRScanner (resume (StartCall 0 0 (js ''camera-back'')) Resolved 2000
         (closeQRScanner (closeQRScanner startingPage)))) = [StartCall 0 0 (js ''camera-back'')]"
  unfolding closeQRScanner_idem
  by (simp add: page_defs session_defs Let_def)

text \<open>
  C6: error callbacks delivered while the session is scanning, whatever their number and
  their messages (so in particular the per-frame "no symbol" misses), leave the scanning
  flag set, the stored result and raw text as they were and the error display as it was;
  nothing but the status line can differ afterwards.
\<close>

theorem transient_miss_keeps_scanning:
  "scanning (heap w this) \<Longrightarrow>
   (let w' = fold (onScanError this) msgs w in
      scanning (heap w' this)
      \<and> scannedAadhaar w' = scannedAadhaar w \<and> scannedQRData w' = scannedQRData w
      \<and> scannerError_display w' = scannerError_display w
      \<and> w' = w\<lparr>scannerStatus_html := scannerStatus_html w'\<rparr>)"
proof -
  assume s: "scanning (heap w this)"
  let ?w' = "fold (onScanError this) msgs w"
  have eq: "?w' = w\<lparr>scannerStatus_html := scannerStatus_html ?w'\<rparr>" by (rule fold_onScanError)
  have "heap ?w' = heap w" "scannedAadhaar ?w' = scannedAadhaar w"
    "scannedQRData ?w' = scannedQRData w" "scannerError_display ?w' = scannerError_display w"
    by (subst eq, simp)+
  with s eq show ?thesis by (simp add: Let_def)
qed

text \<open>Two misses in a row on the scanning page.\<close>

theorem transient_miss_keeps_scanning_witness:
  "scanning (heap scanningPage 0)
   \<and> (let w' = fold (onScanError 0)
                  [js ''NotFoundException: No MultiFormat Readers were able to detect the code.'',
                   js ''NotFoundException: No MultiFormat Readers were able to detect the code.'']
                  scanningPage
      in scanning (heap w' 0) \<and> scannedAadhaar w' = None \<and> scannedQRData w' = None
         \<and> scannerError_display w' = js ''none'')"
  using transient_miss_keeps_scanning [of scanningPage 0
      "[js ''NotFoundException: No MultiFormat Readers were able to detect the code.'',
        js ''NotFoundException: No MultiFormat Readers were able to detect the code.'']"]
    scanningPage_fields
  by (simp add: Let_def)

text \<open>
  C7 as stated fails: a frame that decodes to text without a valid number is reported with
  \<open>showError\<close>, which shows the error display with a title and a message, as for the
  fatal errors.
\<close>

theorem invalid_payload_counterexample:
  "extractAadhaarNumber (js ''https://example.org/menu'') = None
   \<and> scanning (heap scanningPage 0)
   \<and> scannerError_display scanningPage = js ''none''
   \<and> scannerError_display (onScanSuccess 0 (js ''https://example.org/menu'') scanningPage) = js ''block''
   \<and> errorTitle_text (onScanSuccess 0 (js ''https://example.org/menu'') scanningPage)
        = js ''Invalid QR Code''
   \<and> errorMessage_text (onScanSuccess 0 (js ''https://example.org/menu'') scanningPage)
        = js ''This QR code does not contain a valid Aadhaar number.''"
  using scanningPage_fields by (simp add: onScanSuccess_invalid [OF invalid_url] invalid_url)

text \<open>
  C7, amended: when a frame decodes to text that fails the validation, the outcome is
  shown by the title-and-message error display (title \<open>Invalid QR Code\<close>) and on the
  status line; the scanner object (so its scanning flag), the library calls, the timers,
  the camera and the stored result are unchanged, and a timeout of 2000 ms is set whose
  callback puts the status line back to \<open>Scanning...\<close> and changes nothing else.
\<close>

theorem invalid_payload_surfaced:
  "extractAadhaarNumber text = None \<Longrightarrow>
   (let w' = onScanSuccess this text w in
      heap w' = heap w \<and> calls w' = calls w \<and> intervals w' = intervals w
      \<and> capturing w' = capturing w
      \<and> scannedAadhaar w' = scannedAadhaar w \<and> scannedQRData w' = scannedQRData w
      \<and> scannerError_display w' = js ''block''
      \<and> errorTitle_text w' = js ''Invalid QR Code''
      \<and> errorMessage_text w' = js ''This QR code does not contain a valid Aadhaar number.''
      \<and> scannerStatus_html w' = statusLine (js ''Invalid QR Code'') (js ''error'')
      \<and> timeouts w' = timeouts w @ [(2000, StatusScanning this)]
      \<and> runTask (StatusScanning this) w'
           = w'\<lparr>scannerStatus_html := statusLine (js ''Scanning...'') (js ''scanning'')\<rparr>)"
  by (simp add: onScanSuccess_invalid runTask_def updateStatus_def Let_def)

text \<open>A QR code holding a web address, read on the scanning page.\<close>

theorem invalid_payload_surfaced_witness:
  "extractAadhaarNumber (js ''https://example.org/menu'') = None
   \<and> (let w' = onScanSuccess 0 (js ''https://example.org/menu'') scanningPage in
        scanning (heap w' 0) \<and> calls w' = [StartCall 0 0 (js ''camera-back'')]
        \<and> intervals w' = [1] \<and> capturing w' = [0]
        \<and> scannerError_display w' = js ''block''
        \<and> errorTitle_text w' = js ''Invalid QR Code''
        \<and> timeouts w' = [(2000, StatusScanning 0)])"
  using invalid_payload_surfaced [OF invalid_url, of 0 scanningPage] invalid_url
    scanningPage_fields
  by (simp add: Let_def)

text \<open>
  C8 fails on the code. \<open>onScanError\<close> returns at once when \<open>scanning\<close> is false, but
  \<open>onScanSuccess\<close> has no such guard: after \<open>closeQRScanner\<close> on the scanning page, a
  success callback that still arrives with a valid payload stores the number and the raw
  text and shows the result.
\<close>

theorem late_success_callback_stored:
  "\<not> scanning (heap (closeQRScanner scanningPage) 0)
   \<and> scannedAadhaar (closeQRScanner scanningPage) = None
   \<and> scannedQRData (closeQRScanner scanningPage) = None
   \<and> scanResult_display (closeQRScanner scanningPage) = js ''none''
   \<and> scannedAadhaar (onScanSuccess 0 (js ''AADHAAR:123456789012'') (closeQRScanner scanningPage))
        = Some (js ''123456789012'')
   \<and> scannedQRData (onScanSuccess 0 (js ''AADHAAR:123456789012'') (closeQRScanner scanningPage))
        = Some (js ''AADHAAR:123456789012'')
   \<and> scanResult_display (onScanSuccess 0 (js ''AADHAAR:123456789012'') (closeQRScanner scanningPage))
        = js ''block''"
  using closed_scanningPage onScanSuccess_stores [OF labeled_example] by simp




end
